theory Spec2Isabelle
  imports Main "HOL-Library.AList"
begin

section \<open>Values, errors and events (eventsourcing/domain.py)\<close>

text \<open>
  UUIDs and datetimes are opaque to the code, which only stores and compares them; they
  are natural numbers here. \<open>uuid4()\<close> and \<open>datetime.now(tz=TZINFO)\<close> read the
  environment, so every function that calls them takes the value read as an argument.
\<close>

type_synonym uuid = nat
type_synonym datetime = nat

datatype pyval = PNone | PInt int | PStr string | PUUID uuid | PTime datetime

text \<open>A \<open>Dict[str, Any]\<close> that is only looked up and updated.\<close>

type_synonym pydict = "string \<rightharpoonup> pyval"

text \<open>Keyword arguments \<open>**kwargs\<close>, in the order given.\<close>

type_synonym kwargs = "(string \<times> pyval) list"

datatype error =
    OriginatorIDError uuid uuid
  | OriginatorVersionError int int
  | TypeError
  | AssertionError
  | AttributeError string
  | KeyError string
  | TopicError
  | Conflict
  | Raised string

text \<open>
  An event class (a subclass of \<open>AggregateEvent\<close>, a frozen dataclass): its name, whether
  it derives from \<open>AggregateCreated\<close>, and the dataclass fields it declares itself. The
  classes the \<open>@event\<close> decorator generates annotate every field \<open>typing.Any\<close> with no
  default, so every declared field is required.
\<close>

record event_class =
  ec_name :: string
  ec_is_created :: bool
  ec_fields :: "string list"

text \<open>\<open>DomainEvent\<close>: the three fields every event and snapshot has.\<close>

record domain_event =
  originator_id :: uuid
  originator_version :: int
  timestamp :: datetime

text \<open>
  An \<open>AggregateEvent\<close> instance: its class and the rest of its \<open>__dict__\<close> (for an
  \<open>AggregateCreated\<close> this holds \<open>originator_topic\<close>).
\<close>

record event = domain_event +
  ev_class :: event_class
  ev_kwargs :: kwargs

text \<open>
  An aggregate class (an instance of \<open>MetaAggregate\<close>): its topic (\<open>get_topic(cls)\<close>),
  the class attributes \<open>INITIAL_VERSION\<close> and \<open>class_version\<close> when the class
  declares them, the class attributes that \<open>getattr(cls, upcast_name)\<close> can find, and
  the user's \<open>create_id\<close>. An upcast method changes the state dictionary in place and
  may raise; what it returns is discarded.
\<close>

record aggregate_class =
  cls_topic :: string
  cls_INITIAL_VERSION :: "int option"
  cls_class_version :: "int option"
  cls_methods :: "string \<rightharpoonup> (pydict \<Rightarrow> error + pydict)"
  cls_init_mentions_id :: bool
  cls_create_id_param_names :: "string list"
  cls_create_id :: "uuid \<Rightarrow> kwargs \<Rightarrow> uuid"

text \<open>
  An \<open>Aggregate\<close> instance. \<open>_id\<close>, \<open>_version\<close> and \<open>_pending_events\<close> are the
  fields \<open>aggregate_id\<close>, \<open>version\<close> and \<open>pending_events\<close>; \<open>attrs\<close> is the rest
  of the instance's \<open>__dict__\<close>, which includes \<open>_created_on\<close> and \<open>_modified_on\<close>
  and has no entry under the three names that are fields here.
\<close>

record aggregate =
  agg_class :: aggregate_class
  aggregate_id :: uuid
  version :: int
  pending_events :: "event list"
  attrs :: pydict

text \<open>
  User code is a parameter of the model. \<open>event.apply(aggregate)\<close>, dispatched on the
  event's class, is handed the aggregate itself: it may assign any of its attributes
  (\<open>version\<close> has a public setter), change the pending list, or trigger further events.
  It either returns a value or raises, and the second component is the aggregate as it
  leaves it. The base class's \<open>apply\<close> does nothing and returns \<open>None\<close>.
\<close>

type_synonym apply_fn = "event \<Rightarrow> aggregate \<Rightarrow> (error + pyval) \<times> aggregate"

definition AggregateEvent_apply :: apply_fn where
  "AggregateEvent_apply self aggregate = (Inr PNone, aggregate)"

text \<open>
  \<open>agg.__init__(**kwargs)\<close>, dispatched on the aggregate's class: it is handed the
  instance \<open>__base_init__\<close> has initialised and either leaves it in some state or
  raises.
\<close>

type_synonym init_fn = "aggregate_class \<Rightarrow> kwargs \<Rightarrow> aggregate \<Rightarrow> error + aggregate"

text \<open>\<open>resolve_topic\<close> of \<open>eventsourcing.utils\<close>, for aggregate classes.\<close>

type_synonym resolver = "string \<Rightarrow> aggregate_class option"

definition modified_on :: "aggregate \<Rightarrow> pyval option" where
  "modified_on a = attrs a ''_modified_on''"

definition created_on :: "aggregate \<Rightarrow> pyval option" where
  "created_on a = attrs a ''_created_on''"

section \<open>Applying an event\<close>

text \<open>
  A call that raises is \<open>Inl (e, s)\<close>: the exception and the state the object it was
  called on is left in.
\<close>

definition AggregateEvent_mutate ::
  "apply_fn \<Rightarrow> event \<Rightarrow> aggregate option \<Rightarrow> (error \<times> aggregate option) + aggregate" where
  "AggregateEvent_mutate apply self aggregate =
     (case aggregate of
        None \<Rightarrow> Inl (AssertionError, None)
      | Some a \<Rightarrow>
          (let next_version = version a + 1 in
           if originator_id self \<noteq> aggregate_id a then
             Inl (OriginatorIDError (originator_id self) (aggregate_id a), Some a)
           else if originator_version self \<noteq> next_version then
             Inl (OriginatorVersionError (originator_version self) next_version, Some a)
           else
             (case apply self a of
                (Inl e, a') \<Rightarrow> Inl (e, Some a')
              | (Inr r, a') \<Rightarrow>
                  if r \<noteq> PNone then Inl (TypeError, Some a')
                  else Inr (a'\<lparr>attrs := (attrs a')(''_modified_on'' \<mapsto> PTime (timestamp self)),
                               version := originator_version self\<rparr>))))"


section \<open>Constructing events and aggregates\<close>

definition base_names :: "string list" where
  "base_names = [''originator_id'', ''originator_version'', ''timestamp'']"

definition field_names :: "event_class \<Rightarrow> string list" where
  "field_names ec = (if ec_is_created ec then [''originator_topic''] else []) @ ec_fields ec"

text \<open>
  \<open>event_class(originator_id=..., originator_version=..., timestamp=..., **kwargs)\<close>, the
  dataclass's generated constructor. Python raises \<open>TypeError\<close> when a keyword is given
  twice, when a keyword is not a field, and when a field without default gets no value.
\<close>

definition new_event :: "event_class \<Rightarrow> uuid \<Rightarrow> int \<Rightarrow> datetime \<Rightarrow> kwargs \<Rightarrow> error + event" where
  "new_event ec oid ver ts kw =
     (let names = map fst kw in
      if \<not> distinct names \<or> (\<exists>n \<in> set names. n \<in> set base_names) then Inl TypeError
      else if \<exists>n \<in> set names. n \<notin> set (field_names ec) then Inl TypeError
      else if \<exists>f \<in> set (field_names ec). f \<notin> set names then Inl TypeError
      else Inr \<lparr>originator_id = oid, originator_version = ver, timestamp = ts,
                ev_class = ec, ev_kwargs = kw\<rparr>)"

text \<open>
  \<open>cls.INITIAL_VERSION\<close>, read through the aggregate class: an attribute the class
  declares comes before the metaclass's \<open>INITIAL_VERSION = 1\<close>.
\<close>

definition MetaAggregate_INITIAL_VERSION :: int where
  "MetaAggregate_INITIAL_VERSION = 1"

definition INITIAL_VERSION_of :: "aggregate_class \<Rightarrow> int" where
  "INITIAL_VERSION_of cls =
     (case cls_INITIAL_VERSION cls of None \<Rightarrow> MetaAggregate_INITIAL_VERSION | Some v \<Rightarrow> v)"

definition base_init :: "aggregate_class \<Rightarrow> uuid \<Rightarrow> int \<Rightarrow> datetime \<Rightarrow> aggregate" where
  "base_init cls i v ts =
     \<lparr>agg_class = cls, aggregate_id = i, version = v, pending_events = [],
      attrs = [''_created_on'' \<mapsto> PTime ts, ''_modified_on'' \<mapsto> PTime ts]\<rparr>"

definition AggregateCreated_mutate ::
  "resolver \<Rightarrow> init_fn \<Rightarrow> event \<Rightarrow> aggregate option
     \<Rightarrow> (error \<times> aggregate option) + aggregate" where
  "AggregateCreated_mutate resolve_topic init self aggregate =
     (case aggregate of
        Some a \<Rightarrow> Inl (AssertionError, Some a)
      | None \<Rightarrow>
          (case map_of (ev_kwargs self) ''originator_topic'' of
             None \<Rightarrow> Inl (KeyError ''originator_topic'', None)
           | Some (PStr t) \<Rightarrow>
               (case resolve_topic t of
                  None \<Rightarrow> Inl (TopicError, None)
                | Some aggregate_class \<Rightarrow>
                    (let kwargs = AList.delete ''originator_topic'' (ev_kwargs self);
                         agg = base_init aggregate_class (originator_id self)
                                 (originator_version self) (timestamp self);
                         kwargs = (if cls_init_mentions_id aggregate_class
                                   then AList.update ''id'' (PUUID (originator_id self)) kwargs
                                   else kwargs)
                     in case init aggregate_class kwargs agg of
                          Inl e \<Rightarrow> Inl (e, None)
                        | Inr agg' \<Rightarrow> Inr agg'))
           | Some _ \<Rightarrow> Inl (TopicError, None)))"

text \<open>\<open>event.mutate(aggregate)\<close>: \<open>AggregateCreated\<close> overrides the method.\<close>

definition mutate ::
  "resolver \<Rightarrow> init_fn \<Rightarrow> apply_fn \<Rightarrow> event \<Rightarrow> aggregate option
     \<Rightarrow> (error \<times> aggregate option) + aggregate" where
  "mutate resolve_topic init apply self aggregate =
     (if ec_is_created (ev_class self)
      then AggregateCreated_mutate resolve_topic init self aggregate
      else AggregateEvent_mutate apply self aggregate)"


section \<open>Commands\<close>

text \<open>\<open>Aggregate.trigger_event\<close>.\<close>

definition trigger_event ::
  "resolver \<Rightarrow> init_fn \<Rightarrow> apply_fn \<Rightarrow> datetime \<Rightarrow> aggregate \<Rightarrow> event_class \<Rightarrow> kwargs
     \<Rightarrow> (error \<times> aggregate) + aggregate" where
  "trigger_event resolve_topic init apply now self event_class kwargs =
     (let next_version = version self + 1 in
      case new_event event_class (aggregate_id self) next_version now kwargs of
        Inl e \<Rightarrow> Inl (TypeError, self)
      | Inr new_ev \<Rightarrow>
          (case mutate resolve_topic init apply new_ev (Some self) of
             Inl (e, s) \<Rightarrow> Inl (e, case s of Some a \<Rightarrow> a | None \<Rightarrow> self)
           | Inr a \<Rightarrow> Inr (a\<lparr>pending_events := pending_events a @ [new_ev]\<rparr>)))"






section \<open>Snapshots\<close>

record snapshot = domain_event +
  topic :: string
  state :: pydict

text \<open>Python's \<open>str\<close> of an integer, as the f-string formats it.\<close>

fun str_nat :: "nat \<Rightarrow> string" where
  "str_nat n =
     (if n < 10 then [char_of (48 + n)]
      else str_nat (n div 10) @ [char_of (48 + n mod 10)])"

definition str_int :: "int \<Rightarrow> string" where
  "str_int i = (if i < 0 then CHR ''-'' # str_nat (nat (- i)) else str_nat (nat i))"

definition upcast_name :: "int \<Rightarrow> string" where
  "upcast_name from_version =
     ''upcast_v'' @ str_int from_version @ ''_v'' @ str_int (from_version + 1)"

text \<open>\<open>getattr(cls, "class_version", 1)\<close>.\<close>

definition class_version_of :: "aggregate_class \<Rightarrow> int" where
  "class_version_of cls = (case cls_class_version cls of None \<Rightarrow> 1 | Some v \<Rightarrow> v)"

text \<open>
  \<open>Snapshot.take\<close>. Copying \<open>__dict__\<close> and popping \<open>_pending_events\<close>, \<open>_id\<close> and
  \<open>_version\<close> leaves \<open>attrs\<close>.
\<close>

definition Snapshot_take :: "datetime \<Rightarrow> aggregate \<Rightarrow> snapshot" where
  "Snapshot_take now aggregate =
     (let aggregate_state = attrs aggregate;
          class_version = class_version_of (agg_class aggregate);
          aggregate_state = (if class_version > 1
                             then aggregate_state(''class_version'' \<mapsto> PInt class_version)
                             else aggregate_state)
      in \<lparr>originator_id = aggregate_id aggregate, originator_version = version aggregate,
          timestamp = now, topic = cls_topic (agg_class aggregate), state = aggregate_state\<rparr>)"

text \<open>
  The loop of \<open>Snapshot.mutate\<close>: \<open>getattr\<close> raises \<open>AttributeError\<close> when the class has
  no attribute of the name.
\<close>

function upcast_loop :: "aggregate_class \<Rightarrow> int \<Rightarrow> int \<Rightarrow> pydict \<Rightarrow> error + pydict" where
  "upcast_loop cls from_version class_version aggregate_state =
     (if from_version < class_version then
        (case cls_methods cls (upcast_name from_version) of
           None \<Rightarrow> Inl (AttributeError (upcast_name from_version))
         | Some upcast \<Rightarrow>
             (case upcast aggregate_state of
                Inl e \<Rightarrow> Inl e
              | Inr s \<Rightarrow> upcast_loop cls (from_version + 1) class_version s))
      else Inr aggregate_state)"
  by pat_completeness auto
termination
  by (relation "measure (\<lambda>(cls, from_version, class_version, s). nat (class_version - from_version))")
    auto

declare upcast_loop.simps [simp del]

text \<open>
  \<open>Snapshot.mutate\<close>. The argument \<open>aggregate\<close> is not read. Comparing a
  \<open>class_version\<close> entry that is not an integer with the class's version raises
  \<open>TypeError\<close>.
\<close>

definition Snapshot_mutate :: "resolver \<Rightarrow> snapshot \<Rightarrow> aggregate option \<Rightarrow> error + aggregate" where
  "Snapshot_mutate resolve_topic self aggregate =
     (case resolve_topic (topic self) of
        None \<Rightarrow> Inl TopicError
      | Some cls \<Rightarrow>
          (let aggregate_state = (state self)(''class_version'' := None);
               from_version = (case state self ''class_version'' of None \<Rightarrow> PInt 1 | Some v \<Rightarrow> v);
               class_version = class_version_of cls
           in case from_version of
                PInt fv \<Rightarrow>
                  (case upcast_loop cls fv class_version aggregate_state of
                     Inl e \<Rightarrow> Inl e
                   | Inr aggregate_state \<Rightarrow>
                       Inr \<lparr>agg_class = cls, aggregate_id = originator_id self,
                            version = originator_version self, pending_events = [],
                            attrs = aggregate_state\<rparr>)
              | _ \<Rightarrow> Inl TypeError))"

text \<open>
  The chain of upgrade steps as the specification words it: the steps for the intervening
  versions, looked up by name and applied one after the other; a step that is not
  registered is an error.
\<close>

fun apply_steps :: "(string \<times> (pydict \<Rightarrow> error + pydict) option) list \<Rightarrow> pydict \<Rightarrow> error + pydict" where
  "apply_steps [] s = Inr s"
| "apply_steps ((name, None) # steps) s = Inl (AttributeError name)"
| "apply_steps ((name, Some step) # steps) s =
     (case step s of Inl e \<Rightarrow> Inl e | Inr s' \<Rightarrow> apply_steps steps s')"

definition registered_steps ::
  "aggregate_class \<Rightarrow> int \<Rightarrow> int \<Rightarrow> (string \<times> (pydict \<Rightarrow> error + pydict) option) list" where
  "registered_steps cls from_version class_version =
     map (\<lambda>v. (upcast_name v, cls_methods cls (upcast_name v))) [from_version..class_version - 1]"

section \<open>The recorder\<close>

text \<open>
  The recorder's implementation is not among the sources, which hold only its conformance
  test (\<open>ApplicationRecorderTestCase\<close>); the definitions of this section follow section 4.2
  of the specification.
\<close>

text \<open>
  Modelled from the spec: \<open>StoredEvent\<close> of \<open>eventsourcing.persistence\<close>, the record
  \<open>{originator_id, originator_version, topic, state}\<close>.
\<close>

record stored_event =
  stored_originator_id :: uuid
  stored_originator_version :: int
  stored_topic :: string
  stored_state :: string

text \<open>
  Modelled from the spec: \<open>Notification\<close>, a stored event together with its globally
  assigned id.
\<close>

record notification = stored_event +
  notification_id :: int

text \<open>
  Modelled from the spec: the recorder's store, the committed rows in commit order.
\<close>

type_synonym recorder = "notification list"

definition empty_recorder :: recorder where
  "empty_recorder = []"

definition key :: "'a stored_event_scheme \<Rightarrow> uuid \<times> int" where
  "key e = (stored_originator_id e, stored_originator_version e)"

definition stored_of :: "notification \<Rightarrow> stored_event" where
  "stored_of n =
     \<lparr>stored_originator_id = stored_originator_id n,
      stored_originator_version = stored_originator_version n,
      stored_topic = stored_topic n, stored_state = stored_state n\<rparr>"

definition notification_of :: "stored_event \<Rightarrow> int \<Rightarrow> notification" where
  "notification_of e i =
     \<lparr>stored_originator_id = stored_originator_id e,
      stored_originator_version = stored_originator_version e,
      stored_topic = stored_topic e, stored_state = stored_state e, notification_id = i\<rparr>"

text \<open>
  Modelled from the spec: \<open>maxNotificationID()\<close>, the highest assigned id, or 0 if the
  store is empty.
\<close>

definition max_notification_id :: "recorder \<Rightarrow> int" where
  "max_notification_id r = fold max (map notification_id r) 0"

text \<open>
  Modelled from the spec: the conflict test of \<open>insert\<close>. An event conflicts with the
  history before it (the committed rows, then the events of the batch before it) if its
  pair (originator_id, originator_version) is already there, or if its originator has a
  history and its version is not the one after the originator's last. The first version of
  an originator is not tested: the conformance test commits version 0 as the first event
  of one originator and version 1 as the first of another, and expects both inserts to
  succeed.
\<close>

definition conflicts :: "(uuid \<times> int) list \<Rightarrow> uuid \<times> int \<Rightarrow> bool" where
  "conflicts history k =
     (let vs = map snd (filter (\<lambda>h. fst h = fst k) history)
      in snd k \<in> set vs \<or> (vs \<noteq> [] \<and> snd k \<noteq> last vs + 1))"

fun batch_conflict :: "(uuid \<times> int) list \<Rightarrow> stored_event list \<Rightarrow> bool" where
  "batch_conflict history [] = False"
| "batch_conflict history (e # es) =
     (conflicts history (key e) \<or> batch_conflict (history @ [key e]) es)"

text \<open>
  Modelled from the spec: \<open>insert(batch)\<close>. Either every event of the batch is committed
  and given the next ids, in the order of the batch, or the call fails with the conflict
  error and the store is as before. The id sequence continues from the highest assigned
  id; a failed call reserves none.
\<close>

definition insert_events ::
  "recorder \<Rightarrow> stored_event list \<Rightarrow> (error \<times> recorder) + ((stored_event \<times> int) list \<times> recorder)" where
  "insert_events r batch =
     (if batch_conflict (map key r) batch then Inl (Conflict, r)
      else
        (let returning =
               zip batch (map (\<lambda>i. max_notification_id r + 1 + int i) [0..<length batch])
         in Inr (returning, r @ map (\<lambda>(e, i). notification_of e i) returning)))"

text \<open>
  Modelled from the spec: \<open>selectNotifications(start_id, limit, [stop_id], [topics])\<close>:
  the rows with id at least \<open>start\<close> (and at most \<open>stop\<close> if given) whose topic is among
  \<open>topics\<close> if given, ascending by id, at most \<open>limit\<close> of them.
\<close>

definition select_notifications ::
  "recorder \<Rightarrow> int \<Rightarrow> int \<Rightarrow> int option \<Rightarrow> string list option \<Rightarrow> notification list" where
  "select_notifications r start limit stop topics =
     take (nat limit)
       (filter (\<lambda>n. start \<le> notification_id n
                   \<and> (case stop of None \<Rightarrow> True | Some s \<Rightarrow> notification_id n \<le> s)
                   \<and> (case topics of None \<Rightarrow> True | Some ts \<Rightarrow> stored_topic n \<in> set ts))
          (sort_key notification_id r))"

text \<open>
  Modelled from the spec: \<open>selectEvents(originator_id)\<close>, the stored events of one
  aggregate, ordered by version.
\<close>

definition select_events :: "recorder \<Rightarrow> uuid \<Rightarrow> stored_event list" where
  "select_events r oid =
     map stored_of (sort_key stored_originator_version
       (filter (\<lambda>n. stored_originator_id n = oid) r))"

text \<open>The versions committed for one originator, in commit order.\<close>

definition committed_versions :: "recorder \<Rightarrow> uuid \<Rightarrow> int list" where
  "committed_versions r oid =
     map stored_originator_version (filter (\<lambda>n. stored_originator_id n = oid) r)"

text \<open>A list of versions that goes up by one at every step.\<close>

fun contiguous :: "int list \<Rightarrow> bool" where
  "contiguous [] = True"
| "contiguous [v] = True"
| "contiguous (v # w # vs) = (w = v + 1 \<and> contiguous (w # vs))"

text \<open>A run of insert calls that all succeed.\<close>

fun insert_all :: "recorder \<Rightarrow> stored_event list list \<Rightarrow> (error \<times> recorder) + recorder" where
  "insert_all r [] = Inr r"
| "insert_all r (b # bs) =
     (case insert_events r b of
        Inl x \<Rightarrow> Inl x
      | Inr (returning, r') \<Rightarrow> insert_all r' bs)"

text \<open>The store after a run of insert calls, each of which commits or fails.\<close>

fun after_inserts :: "recorder \<Rightarrow> stored_event list list \<Rightarrow> recorder" where
  "after_inserts r [] = r"
| "after_inserts r (b # bs) =
     after_inserts (case insert_events r b of Inl (e, r') \<Rightarrow> r' | Inr (returning, r') \<Rightarrow> r') bs"

text \<open>The three stored events of \<open>test_insert_select\<close>, with 1 and 2 for the two UUIDs.\<close>

definition stored_event1 :: stored_event where
  "stored_event1 = \<lparr>stored_originator_id = 1, stored_originator_version = 0,
     stored_topic = ''topic1'', stored_state = ''state1''\<rparr>"

definition stored_event2 :: stored_event where
  "stored_event2 = \<lparr>stored_originator_id = 1, stored_originator_version = 1,
     stored_topic = ''topic2'', stored_state = ''state2''\<rparr>"

definition stored_event3 :: stored_event where
  "stored_event3 = \<lparr>stored_originator_id = 2, stored_originator_version = 1,
     stored_topic = ''topic3'', stored_state = ''state3''\<rparr>"

section \<open>An example aggregate\<close>

text \<open>
  A class \<open>World\<close>, an \<open>__init__\<close> that stores its keyword arguments, a created
  event class and an ordinary event class, and an \<open>apply\<close> method that stores the
  event's fields on the aggregate.
\<close>

definition World :: aggregate_class where
  "World = \<lparr>cls_topic = ''World'', cls_INITIAL_VERSION = None, cls_class_version = None,
     cls_methods = Map.empty, cls_init_mentions_id = False,
     cls_create_id_param_names = [], cls_create_id = (\<lambda>fresh kw. fresh)\<rparr>"

definition example_init :: init_fn where
  "example_init cls kw a = Inr (a\<lparr>attrs := attrs a ++ map_of kw\<rparr>)"

definition World_Created :: event_class where
  "World_Created = \<lparr>ec_name = ''World.Created'', ec_is_created = True, ec_fields = [''name'']\<rparr>"

definition SomethingHappened :: event_class where
  "SomethingHappened =
     \<lparr>ec_name = ''World.SomethingHappened'', ec_is_created = False, ec_fields = [''what'']\<rparr>"

definition example_resolve :: resolver where
  "example_resolve t = (if t = ''World'' then Some World else None)"

definition example_apply :: apply_fn where
  "example_apply ev a = (Inr PNone, a\<lparr>attrs := attrs a ++ map_of (ev_kwargs ev)\<rparr>)"

definition world1 :: aggregate where
  "world1 = \<lparr>agg_class = World, aggregate_id = 7, version = 1, pending_events = [],
     attrs = [''_created_on'' \<mapsto> PTime 100, ''_modified_on'' \<mapsto> PTime 100,
              ''name'' \<mapsto> PStr ''Earth'']\<rparr>"

definition happened :: "uuid \<Rightarrow> int \<Rightarrow> event" where
  "happened oid v = \<lparr>originator_id = oid, originator_version = v, timestamp = 101,
     ev_class = SomethingHappened, ev_kwargs = [(''what'', PStr ''rain'')]\<rparr>"

definition world_created :: event where
  "world_created = \<lparr>originator_id = 7, originator_version = 1, timestamp = 100,
     ev_class = World_Created,
     ev_kwargs = [(''originator_topic'', PStr ''World''), (''name'', PStr ''Earth'')]\<rparr>"





text \<open>
  A version of the class that declares \<open>class_version = 3\<close> and the two upcast methods:
  the first adds the field \<open>size\<close>, the second copies it to \<open>radius\<close> and fails
  if it is not there. \<open>World3_incomplete\<close> has lost the second method.
\<close>

definition upcast_v1_v2 :: "pydict \<Rightarrow> error + pydict" where
  "upcast_v1_v2 s = Inr (s(''size'' \<mapsto> PInt 1))"

definition upcast_v2_v3 :: "pydict \<Rightarrow> error + pydict" where
  "upcast_v2_v3 s =
     (case s ''size'' of None \<Rightarrow> Inl (KeyError ''size'') | Some v \<Rightarrow> Inr (s(''radius'' \<mapsto> v)))"

definition World3 :: aggregate_class where
  "World3 = World\<lparr>cls_topic := ''World3'', cls_class_version := Some 3,
     cls_methods := [''upcast_v1_v2'' \<mapsto> upcast_v1_v2, ''upcast_v2_v3'' \<mapsto> upcast_v2_v3]\<rparr>"

definition World3_incomplete :: aggregate_class where
  "World3_incomplete = World3\<lparr>cls_topic := ''World3_incomplete'',
     cls_methods := [''upcast_v1_v2'' \<mapsto> upcast_v1_v2]\<rparr>"

definition resolve3 :: resolver where
  "resolve3 t =
     (if t = ''World'' then Some World else if t = ''World3'' then Some World3
      else if t = ''World3_incomplete'' then Some World3_incomplete else None)"

definition snapshot_v1 :: "string \<Rightarrow> snapshot" where
  "snapshot_v1 t = \<lparr>originator_id = 7, originator_version = 4, timestamp = 200, topic = t,
     state = [''name'' \<mapsto> PStr ''Earth'']\<rparr>"

text \<open>An aggregate with an instance attribute called \<open>class_version\<close>.\<close>

definition world_cv :: aggregate where
  "world_cv = world1\<lparr>attrs := (attrs world1)(''class_version'' \<mapsto> PInt 5)\<rparr>"

text \<open>The example aggregate after one command, the event still pending.\<close>

definition world2 :: aggregate where
  "world2 = world1\<lparr>version := 2, pending_events := [happened 7 2],
     attrs := (attrs world1)(''what'' \<mapsto> PStr ''rain'', ''_modified_on'' \<mapsto> PTime 101)\<rparr>"

text \<open>The batches \<open>test_insert_select\<close> inserts, and the store it expects afterwards.\<close>

definition test_batches :: "stored_event list list" where
  "test_batches = [[], [stored_event1, stored_event2], [stored_event3]]"

definition test_recorder :: recorder where
  "test_recorder = [notification_of stored_event1 1, notification_of stored_event2 2,
                    notification_of stored_event3 3]"

section \<open>Properties of events and commands\<close>

lemma new_event_Inr:
  "new_event ec oid ver ts kw = Inr ev \<Longrightarrow>
     ev = \<lparr>originator_id = oid, originator_version = ver, timestamp = ts, ev_class = ec, ev_kwargs = kw\<rparr>"
  by (simp add: new_event_def Let_def split: if_splits)

lemma new_event_Inl: "new_event ec oid ver ts kw = Inl e \<Longrightarrow> e = TypeError"
  by (simp add: new_event_def Let_def split: if_splits)

lemma AggregateEvent_mutate_Inr:
  "AggregateEvent_mutate apply ev (Some a) = Inr a' \<Longrightarrow>
     originator_id ev = aggregate_id a \<and> originator_version ev = version a + 1 \<and>
     (\<exists>b. apply ev a = (Inr PNone, b) \<and>
        a' = b\<lparr>attrs := (attrs b)(''_modified_on'' \<mapsto> PTime (timestamp ev)),
               version := originator_version ev\<rparr>)"
  by (auto simp: AggregateEvent_mutate_def Let_def split: if_splits prod.splits sum.splits)

lemma trigger_event_Inr:
  assumes "trigger_event R init apply now a ec kw = Inr a'"
  shows "\<exists>ev b. new_event ec (aggregate_id a) (version a + 1) now kw = Inr ev \<and> \<not> ec_is_created ec \<and>
           apply ev a = (Inr PNone, b) \<and>
           a' = b\<lparr>attrs := (attrs b)(''_modified_on'' \<mapsto> PTime now), version := version a + 1,
                  pending_events := pending_events b @ [ev]\<rparr>"
proof -
  from assms obtain ev m where ev: "new_event ec (aggregate_id a) (version a + 1) now kw = Inr ev"
    and m: "mutate R init apply ev (Some a) = Inr m"
    and a': "a' = m\<lparr>pending_events := pending_events m @ [ev]\<rparr>"
    by (auto simp: trigger_event_def Let_def split: sum.splits prod.splits)
  from new_event_Inr [OF ev] have evf: "ev_class ev = ec" "timestamp ev = now"
    "originator_version ev = version a + 1"
    by simp_all
  have nc: "\<not> ec_is_created ec"
    using m evf by (auto simp: mutate_def AggregateCreated_mutate_def split: if_splits)
  with m evf have "AggregateEvent_mutate apply ev (Some a) = Inr m" by (simp add: mutate_def)
  from AggregateEvent_mutate_Inr [OF this] obtain b where
    "apply ev a = (Inr PNone, b)"
    "m = b\<lparr>attrs := (attrs b)(''_modified_on'' \<mapsto> PTime (timestamp ev)),
           version := originator_version ev\<rparr>"
    by blast
  with ev nc a' evf show ?thesis by auto
qed








lemmas example_defs = new_event_def base_names_def field_names_def World_def World_Created_def
  SomethingHappened_def MetaAggregate_INITIAL_VERSION_def INITIAL_VERSION_of_def mutate_def
  AggregateCreated_mutate_def AggregateEvent_mutate_def example_resolve_def example_init_def
  example_apply_def base_init_def world1_def happened_def
  world_created_def Let_def


lemma example_init_frame:
  "\<forall>c k b b'. example_init c k b = Inr b' \<longrightarrow>
     aggregate_id b' = aggregate_id b \<and> version b' = version b
     \<and> pending_events b' = pending_events b"
  by (auto simp: example_init_def)

lemma example_apply_frame:
  "\<forall>ev b r b'. example_apply ev b = (r, b') \<longrightarrow>
     aggregate_id b' = aggregate_id b \<and> pending_events b' = pending_events b"
  by (auto simp: example_apply_def)

section \<open>Properties of snapshots\<close>

lemma upcast_name_1: "upcast_name 1 = ''upcast_v1_v2''"
  by code_simp

lemma upcast_name_2: "upcast_name 2 = ''upcast_v2_v3''"
  by code_simp

lemma upcast_loop_steps:
  "upcast_loop cls f c s = apply_steps (registered_steps cls f c) s"
proof (induction cls f c s rule: upcast_loop.induct)
  case (1 cls f c s)
  show ?case
  proof (cases "f < c")
    case False
    then show ?thesis
      by (simp add: upcast_loop.simps [of cls f c s] registered_steps_def)
  next
    case True
    then have u: "registered_steps cls f c =
        (upcast_name f, cls_methods cls (upcast_name f)) # registered_steps cls (f + 1) c"
      by (simp add: registered_steps_def upto_rec1 [of f "c - 1"])
    show ?thesis
    proof (cases "cls_methods cls (upcast_name f)")
      case None
      with True u show ?thesis by (simp add: upcast_loop.simps [of cls f c s])
    next
      case (Some up)
      show ?thesis
      proof (cases "up s")
        case (Inl e)
        with True u Some show ?thesis by (simp add: upcast_loop.simps [of cls f c s])
      next
        case (Inr s')
        from 1 [OF True Some Inr] True u Some Inr show ?thesis
          by (simp add: upcast_loop.simps [of cls f c s])
      qed
    qed
  qed
qed

lemma apply_steps_append:
  "apply_steps (xs @ ys) s =
     (case apply_steps xs s of Inl e \<Rightarrow> Inl e | Inr s' \<Rightarrow> apply_steps ys s')"
proof (induction xs arbitrary: s)
  case Nil
  then show ?case by simp
next
  case (Cons x xs)
  obtain name step where x: "x = (name, step)" by (cases x)
  show ?case
  proof (cases step)
    case None
    with x show ?thesis by simp
  next
    case (Some f)
    with x Cons show ?thesis by (simp split: sum.splits)
  qed
qed

lemma registered_steps_split:
  assumes "f \<le> v" "v < c"
  shows "registered_steps cls f c =
     registered_steps cls f v @
       (upcast_name v, cls_methods cls (upcast_name v)) # registered_steps cls (v + 1) c"
proof -
  from assms have "[f..c - 1] = [f..v - 1] @ v # [v + 1..c - 1]"
    using upto_split2 [of f v "c - 1"] upto_rec1 [of v "c - 1"] by (simp add: upto_split1)
  then show ?thesis by (simp add: registered_steps_def)
qed

lemma Snapshot_mutate_steps:
  assumes "resolve_topic (topic snap) = Some cls"
    and "(case state snap ''class_version'' of None \<Rightarrow> PInt 1 | Some v \<Rightarrow> v) = PInt fv"
  shows "Snapshot_mutate resolve_topic snap agg =
     (case apply_steps (registered_steps cls fv (class_version_of cls))
             ((state snap)(''class_version'' := None)) of
        Inl e \<Rightarrow> Inl e
      | Inr st \<Rightarrow> Inr \<lparr>agg_class = cls, aggregate_id = originator_id snap,
                       version = originator_version snap, pending_events = [], attrs = st\<rparr>)"
  using assms by (simp add: Snapshot_mutate_def Let_def upcast_loop_steps)

section \<open>Properties of the recorder\<close>

lemma fold_max_upto: "fold max [1..int n] (0::int) = int n"
proof (induction n)
  case 0
  then show ?case by simp
next
  case (Suc n)
  have "[1..int (Suc n)] = [1..int n] @ [int n + 1]"
    using upto_rec2 [of 1 "int n + 1"] by (simp add: add.commute)
  with Suc show ?case by simp
qed

lemma max_notification_id_dense:
  "map notification_id r = [1..int (length r)] \<Longrightarrow> max_notification_id r = int (length r)"
  by (simp add: max_notification_id_def fold_max_upto)

lemma next_ids: "map (\<lambda>i. m + 1 + int i) [0..<n] = [m + 1..m + int n]"
proof (induction n)
  case 0
  then show ?case by simp
next
  case (Suc n)
  have "[m + 1..m + int (Suc n)] = [m + 1..m + int n] @ [m + int n + 1]"
    using upto_rec2 [of "m + 1" "m + int n + 1"] by (simp add: algebra_simps)
  with Suc show ?case by (simp add: algebra_simps)
qed

lemma stored_of_notification_of: "stored_of (notification_of e i) = e"
  by (simp add: stored_of_def notification_of_def)

lemma notification_id_notification_of: "notification_id (notification_of e i) = i"
  by (simp add: notification_of_def)

lemma key_notification_of: "key (notification_of e i) = key e"
  by (simp add: key_def notification_of_def)

lemma insert_events_Inr:
  assumes "insert_events r batch = Inr (returning, r')"
  shows "\<not> batch_conflict (map key r) batch"
    and "map fst returning = batch"
    and "map snd returning = [max_notification_id r + 1..max_notification_id r + int (length batch)]"
    and "r' = r @ map (\<lambda>(e, i). notification_of e i) returning"
    and "map stored_of r' = map stored_of r @ batch"
    and "map notification_id r' = map notification_id r @ map snd returning"
    and "map key r' = map key r @ map key batch"
proof -
  from assms show c: "\<not> batch_conflict (map key r) batch"
    by (simp add: insert_events_def split: if_splits)
  from assms c have ret: "returning =
      zip batch (map (\<lambda>i. max_notification_id r + 1 + int i) [0..<length batch])"
    and r': "r' = r @ map (\<lambda>(e, i). notification_of e i) returning"
    by (auto simp: insert_events_def Let_def)
  show f: "map fst returning = batch" by (simp add: ret)
  show "map snd returning = [max_notification_id r + 1..max_notification_id r + int (length batch)]"
    by (simp add: ret next_ids)
  show "r' = r @ map (\<lambda>(e, i). notification_of e i) returning" by (rule r')
  have "map stored_of (map (\<lambda>(e, i). notification_of e i) returning) = map fst returning"
    by (simp add: split_def stored_of_notification_of comp_def)
  with f show "map stored_of r' = map stored_of r @ batch" by (simp add: r')
  show "map notification_id r' = map notification_id r @ map snd returning"
    by (simp add: r' split_def notification_id_notification_of comp_def)
  have "map key (map (\<lambda>(e, i). notification_of e i) returning) = map key (map fst returning)"
    by (simp add: split_def key_notification_of comp_def)
  with f show "map key r' = map key r @ map key batch" by (simp add: r')
qed

lemma insert_events_Inl: "insert_events r batch = Inl x \<Longrightarrow> x = (Conflict, r)"
  by (auto simp: insert_events_def Let_def split: if_splits)

lemma insert_events_dense:
  assumes "map notification_id r = [1..int (length r)]"
    and "insert_events r batch = Inr (returning, r')"
  shows "map notification_id r' = [1..int (length r')]"
proof -
  note i = insert_events_Inr [OF assms(2)]
  have l: "length r' = length r + length batch"
    using i(5) by (metis length_append length_map)
  have "[1..int (length r) + int (length batch)] =
      [1..int (length r)] @ [int (length r) + 1..int (length r) + int (length batch)]"
    using upto_split2 [of 1 "int (length r)" "int (length r) + int (length batch)"]
    by (cases "length r = 0") (simp_all)
  with i(3,6) assms(1) l show ?thesis
    by (simp add: max_notification_id_dense)
qed

lemma insert_all_dense:
  "map notification_id r = [1..int (length r)] \<Longrightarrow> insert_all r batches = Inr r' \<Longrightarrow>
     map notification_id r' = [1..int (length r')] \<and>
     map stored_of r' = map stored_of r @ concat batches"
proof (induction batches arbitrary: r)
  case Nil
  then show ?case by simp
next
  case (Cons b bs)
  from Cons.prems(2) obtain returning m where
    m: "insert_events r b = Inr (returning, m)" and rest: "insert_all m bs = Inr r'"
    by (auto split: sum.splits)
  from insert_events_dense [OF Cons.prems(1) m] Cons.IH [OF _ rest] insert_events_Inr(5) [OF m]
  show ?case by simp
qed

lemma after_inserts_dense:
  "map notification_id r = [1..int (length r)] \<Longrightarrow>
     map notification_id (after_inserts r batches) = [1..int (length (after_inserts r batches))]"
proof (induction batches arbitrary: r)
  case Nil
  then show ?case by simp
next
  case (Cons b bs)
  show ?case
  proof (cases "insert_events r b")
    case (Inl x)
    with insert_events_Inl [OF Inl] Cons show ?thesis by simp
  next
    case (Inr y)
    obtain returning m where y: "y = (returning, m)" by (cases y)
    with Inr insert_events_dense [OF Cons.prems, of b returning m] Cons.IH [of m]
    show ?thesis by simp
  qed
qed

lemma select_notifications_dense:
  assumes "map notification_id r = [1..int (length r)]"
  shows "select_notifications r start limit stop topics =
     take (nat limit)
       (filter (\<lambda>n. start \<le> notification_id n
                   \<and> (case stop of None \<Rightarrow> True | Some s \<Rightarrow> notification_id n \<le> s)
                   \<and> (case topics of None \<Rightarrow> True | Some ts \<Rightarrow> stored_topic n \<in> set ts)) r)"
    and "sorted_wrt (<) (map notification_id (select_notifications r start limit stop topics))"
proof -
  from assms have "sorted (map notification_id r)" by simp
  then have s: "sort_key notification_id r = r" by (rule sort_key_id_if_sorted)
  then show e: "select_notifications r start limit stop topics =
     take (nat limit)
       (filter (\<lambda>n. start \<le> notification_id n
                   \<and> (case stop of None \<Rightarrow> True | Some s \<Rightarrow> notification_id n \<le> s)
                   \<and> (case topics of None \<Rightarrow> True | Some ts \<Rightarrow> stored_topic n \<in> set ts)) r)"
    by (simp add: select_notifications_def)
  from assms have "sorted_wrt (<) (map notification_id r)" by simp
  then have "sorted_wrt (\<lambda>x y. notification_id x < notification_id y) r"
    by (simp add: sorted_wrt_map)
  then have "sorted_wrt (\<lambda>x y. notification_id x < notification_id y)
      (select_notifications r start limit stop topics)"
    unfolding e by (intro sorted_wrt_take sorted_wrt_filter)
  then show "sorted_wrt (<) (map notification_id (select_notifications r start limit stop topics))"
    by (simp add: sorted_wrt_map)
qed

lemma empty_dense: "map notification_id empty_recorder = [1..int (length empty_recorder)]"
  by (simp add: empty_recorder_def)


lemma insert_all_test: "insert_all empty_recorder test_batches = Inr test_recorder"
  by code_simp

lemma after_inserts_test: "after_inserts empty_recorder test_batches = test_recorder"
  by code_simp

lemma sort_key_test: "sort_key notification_id test_recorder = test_recorder"
  by (rule sort_key_id_if_sorted) (simp add: test_recorder_def notification_of_def)

lemma select_notifications_test:
  "map notification_id
     (select_notifications test_recorder 1 3 None (Some [''topic1'', ''topic3''])) = [1, 3]"
  by (simp add: select_notifications_def sort_key_test)
    (simp add: test_recorder_def notification_of_def stored_event1_def stored_event2_def
      stored_event3_def)

lemma contiguous_snoc:
  "contiguous vs \<Longrightarrow> (vs \<noteq> [] \<longrightarrow> v = last vs + 1) \<Longrightarrow> contiguous (vs @ [v])"
  by (induction vs rule: contiguous.induct) auto

lemma contiguous_Cons_upto: "contiguous (v # vs) \<Longrightarrow> v # vs = [v..v + int (length vs)]"
proof (induction vs arbitrary: v)
  case Nil
  then show ?case by simp
next
  case (Cons w vs)
  from Cons.prems have w: "w = v + 1" and c: "contiguous (w # vs)" by auto
  have a: "[v..w + int (length vs)] = v # [w..w + int (length vs)]"
    using upto_rec1 [of v "w + int (length vs)"] w by simp
  have b: "v + int (length (w # vs)) = w + int (length vs)"
    using w by simp
  from Cons.IH [OF c] have "v # w # vs = v # [w..w + int (length vs)]"
    by (rule arg_cong)
  also have "\<dots> = [v..w + int (length vs)]"
    by (rule a [symmetric])
  also have "\<dots> = [v..v + int (length (w # vs))]"
    by (simp only: b)
  finally show ?case .
qed

lemma contiguous_upto:
  assumes "contiguous vs" and "vs \<noteq> []"
  shows "vs = [hd vs..hd vs + int (length vs) - 1]"
proof -
  from assms(2) obtain v ws where vs: "vs = v # ws" by (cases vs) auto
  from contiguous_Cons_upto [of v ws] assms(1) vs
  have e: "v # ws = [v..v + int (length ws)]" by simp
  have h: "[hd (v # ws)..hd (v # ws) + int (length (v # ws)) - 1] = [v..v + int (length ws)]"
    by simp
  from e show ?thesis unfolding vs h .
qed

lemma contiguous_distinct: "contiguous vs \<Longrightarrow> distinct vs"
proof (cases "vs = []")
  case True
  then show ?thesis by simp
next
  case False
  assume "contiguous vs"
  from contiguous_upto [OF this False] show ?thesis
    by (metis distinct_upto)
qed

lemma committed_versions_key:
  "committed_versions r oid = map snd (filter (\<lambda>h. fst h = oid) (map key r))"
  by (simp add: committed_versions_def key_def filter_map comp_def)

lemma no_conflict_contiguous:
  assumes "contiguous (map snd (filter (\<lambda>h. fst h = oid) history))"
    and "\<not> conflicts history k"
  shows "contiguous (map snd (filter (\<lambda>h. fst h = oid) (history @ [k])))"
proof (cases "fst k = oid")
  case True
  with assms(2) have "map snd (filter (\<lambda>h. fst h = oid) history) \<noteq> [] \<longrightarrow>
      snd k = last (map snd (filter (\<lambda>h. fst h = oid) history)) + 1"
    by (auto simp: conflicts_def Let_def)
  from contiguous_snoc [OF assms(1) this] True show ?thesis by simp
next
  case False
  with assms(1) show ?thesis by simp
qed

lemma batch_no_conflict_contiguous:
  "\<forall>oid. contiguous (map snd (filter (\<lambda>h. fst h = oid) history)) \<Longrightarrow>
   \<not> batch_conflict history es \<Longrightarrow>
   \<forall>oid. contiguous (map snd (filter (\<lambda>h. fst h = oid) (history @ map key es)))"
proof (induction es arbitrary: history)
  case Nil
  then show ?case by simp
next
  case (Cons e es)
  from Cons.prems(2) have c: "\<not> conflicts history (key e)"
    and rest: "\<not> batch_conflict (history @ [key e]) es"
    by simp_all
  from Cons.prems(1) c have "\<forall>oid. contiguous (map snd (filter (\<lambda>h. fst h = oid) (history @ [key e])))"
    by (blast intro: no_conflict_contiguous)
  from Cons.IH [OF this rest] show ?case by simp
qed

lemma insert_events_contiguous:
  assumes "\<forall>oid. contiguous (committed_versions r oid)"
    and "insert_events r batch = Inr (returning, r')"
  shows "\<forall>oid. contiguous (committed_versions r' oid)"
  using batch_no_conflict_contiguous [of "map key r" batch] assms(1)
    insert_events_Inr(1,7) [OF assms(2)]
  by (simp add: committed_versions_key)

lemma after_inserts_contiguous:
  "\<forall>oid. contiguous (committed_versions r oid) \<Longrightarrow>
     \<forall>oid. contiguous (committed_versions (after_inserts r batches) oid)"
proof (induction batches arbitrary: r)
  case Nil
  then show ?case by simp
next
  case (Cons b bs)
  show ?case
  proof (cases "insert_events r b")
    case (Inl x)
    with insert_events_Inl [OF Inl] Cons show ?thesis by simp
  next
    case (Inr y)
    obtain returning m where y: "y = (returning, m)" by (cases y)
    from insert_events_contiguous [OF Cons.prems] Inr y
    have "\<forall>oid. contiguous (committed_versions m oid)" by blast
    from Cons.IH [OF this] Inr y show ?thesis by simp
  qed
qed

lemma batch_conflict_split:
  "conflicts (history @ map key xs) (key e) \<Longrightarrow> batch_conflict history (xs @ e # ys)"
  by (induction xs arbitrary: history) auto

lemma insert_events_conflict:
  "conflicts (map key r @ map key xs) (key e) \<Longrightarrow>
     insert_events r (xs @ e # ys) = Inl (Conflict, r)"
  by (simp add: insert_events_def batch_conflict_split)

lemma conflicts_member: "k \<in> set history \<Longrightarrow> conflicts history k"
  by (force simp: conflicts_def Let_def)

lemma batch_conflict_member:
  "k \<in> set history \<Longrightarrow> k \<in> key ` set es \<Longrightarrow> batch_conflict history es"
proof (induction es arbitrary: history)
  case Nil
  then show ?case by simp
next
  case (Cons e es)
  show ?case
  proof (cases "key e = k")
    case True
    with Cons.prems(1) show ?thesis by (simp add: conflicts_member)
  next
    case False
    with Cons.prems have "k \<in> set (history @ [key e])" "k \<in> key ` set es" by auto
    from Cons.IH [OF this] show ?thesis by simp
  qed
qed

lemma batch_conflict_duplicate:
  "\<not> distinct (map key es) \<Longrightarrow> batch_conflict history es"
proof (induction es arbitrary: history)
  case Nil
  then show ?case by simp
next
  case (Cons e es)
  show ?case
  proof (cases "key e \<in> key ` set es")
    case True
    have "key e \<in> set (history @ [key e])" by simp
    from batch_conflict_member [OF this True] show ?thesis by simp
  next
    case False
    with Cons.prems have "\<not> distinct (map key es)" by simp
    from Cons.IH [OF this] show ?thesis by simp
  qed
qed

text \<open>
  Claim C1. \<open>AggregateEvent.mutate\<close> on an existing aggregate: an event whose
  originator_id differs from the aggregate's id raises \<open>OriginatorIDError\<close>; an event
  with the aggregate's id whose originator_version is not the aggregate's version plus one
  raises \<open>OriginatorVersionError\<close>. In both cases the aggregate is left exactly as it
  was: the checks come before \<open>apply\<close> and before the version and the modification
  time are set.
\<close>

theorem mutate_checks_precede_mutation:
  "(originator_id ev \<noteq> aggregate_id a \<longrightarrow>
      AggregateEvent_mutate apply ev (Some a) =
        Inl (OriginatorIDError (originator_id ev) (aggregate_id a), Some a))
   \<and> (originator_id ev = aggregate_id a \<and> originator_version ev \<noteq> version a + 1 \<longrightarrow>
      AggregateEvent_mutate apply ev (Some a) =
        Inl (OriginatorVersionError (originator_version ev) (version a + 1), Some a))"
  by (simp add: AggregateEvent_mutate_def Let_def)

theorem mutate_checks_precede_mutation_witness:
  "AggregateEvent_mutate example_apply (happened 8 2) (Some world1) =
     Inl (OriginatorIDError 8 7, Some world1)
   \<and> AggregateEvent_mutate example_apply (happened 7 5) (Some world1) =
     Inl (OriginatorVersionError 5 2, Some world1)"
  using mutate_checks_precede_mutation [where ev = "happened 8 2" and a = world1 and ?apply = example_apply] mutate_checks_precede_mutation [where ev = "happened 7 5" and a = world1 and ?apply = example_apply]
  by (simp add: happened_def world1_def)

text \<open>
  Claim C10. When both the originator_id and the originator_version of the event are wrong,
  \<open>AggregateEvent.mutate\<close> raises \<open>OriginatorIDError\<close> and never
  \<open>OriginatorVersionError\<close>: the identity check comes first.
\<close>

theorem identity_check_precedes_version_check:
  "originator_id ev \<noteq> aggregate_id a \<Longrightarrow> originator_version ev \<noteq> version a + 1 \<Longrightarrow>
     AggregateEvent_mutate apply ev (Some a) = Inl (OriginatorIDError (originator_id ev) (aggregate_id a), Some a)
     \<and> (\<forall>x y s. AggregateEvent_mutate apply ev (Some a) \<noteq> Inl (OriginatorVersionError x y, s))"
  by (simp add: AggregateEvent_mutate_def Let_def)

theorem identity_check_precedes_version_check_witness:
  "AggregateEvent_mutate example_apply (happened 8 5) (Some world1) =
     Inl (OriginatorIDError 8 7, Some world1)"
  using identity_check_precedes_version_check [where ev = "happened 8 5" and a = world1 and ?apply = example_apply]
  by (simp add: happened_def world1_def)

text \<open>
  Claim C3. \<open>trigger_event\<close> constructs the event with the aggregate's id, its
  version plus one and the current time. If the construction fails, \<open>TypeError\<close> is
  raised and the aggregate is as it was. If it succeeds and the event's \<open>apply\<close>
  returns \<open>None\<close>, the call returns the aggregate as \<open>apply\<close> left it, with the
  event's version and timestamp and the event at the end of its pending queue. Whenever the
  call returns, the event was constructed, the aggregate has the event's version and
  timestamp, and the event is the last of its pending queue.
\<close>

theorem trigger_event_effect:
  "(new_event ec (aggregate_id a) (version a + 1) now kw = Inl e \<longrightarrow>
      trigger_event R init apply now a ec kw = Inl (TypeError, a))
   \<and> (new_event ec (aggregate_id a) (version a + 1) now kw = Inr ev \<longrightarrow>
        originator_id ev = aggregate_id a \<and> originator_version ev = version a + 1
        \<and> timestamp ev = now
        \<and> (\<not> ec_is_created ec \<and> apply ev a = (Inr PNone, b) \<longrightarrow>
             trigger_event R init apply now a ec kw =
               Inr (b\<lparr>attrs := (attrs b)(''_modified_on'' \<mapsto> PTime (timestamp ev)),
                      version := originator_version ev,
                      pending_events := pending_events b @ [ev]\<rparr>)))
   \<and> (trigger_event R init apply now a ec kw = Inr a' \<longrightarrow>
        (\<exists>ev'. new_event ec (aggregate_id a) (version a + 1) now kw = Inr ev'
           \<and> version a' = originator_version ev'
           \<and> modified_on a' = Some (PTime (timestamp ev'))
           \<and> pending_events a' \<noteq> [] \<and> last (pending_events a') = ev'))"
proof -
  have 1: "trigger_event R init apply now a ec kw = Inl (TypeError, a)"
    if "new_event ec (aggregate_id a) (version a + 1) now kw = Inl e"
    using that by (simp add: trigger_event_def)
  have 2: "originator_id ev = aggregate_id a \<and> originator_version ev = version a + 1
        \<and> timestamp ev = now
        \<and> (\<not> ec_is_created ec \<and> apply ev a = (Inr PNone, b) \<longrightarrow>
             trigger_event R init apply now a ec kw =
               Inr (b\<lparr>attrs := (attrs b)(''_modified_on'' \<mapsto> PTime (timestamp ev)),
                      version := originator_version ev,
                      pending_events := pending_events b @ [ev]\<rparr>))"
    if ev: "new_event ec (aggregate_id a) (version a + 1) now kw = Inr ev"
  proof -
    from new_event_Inr [OF ev] have evf: "originator_id ev = aggregate_id a"
      "originator_version ev = version a + 1" "timestamp ev = now" "ev_class ev = ec"
      by simp_all
    show ?thesis
      using ev evf
      by (auto simp: trigger_event_def mutate_def AggregateEvent_mutate_def)
  qed
  have 3: "\<exists>ev'. new_event ec (aggregate_id a) (version a + 1) now kw = Inr ev'
           \<and> version a' = originator_version ev'
           \<and> modified_on a' = Some (PTime (timestamp ev'))
           \<and> pending_events a' \<noteq> [] \<and> last (pending_events a') = ev'"
    if t: "trigger_event R init apply now a ec kw = Inr a'"
  proof -
    from trigger_event_Inr [OF t] obtain ev' b' where
      ev': "new_event ec (aggregate_id a) (version a + 1) now kw = Inr ev'"
      and a': "a' = b'\<lparr>attrs := (attrs b')(''_modified_on'' \<mapsto> PTime now), version := version a + 1,
                  pending_events := pending_events b' @ [ev']\<rparr>"
      by blast
    from new_event_Inr [OF ev'] have "originator_version ev' = version a + 1" "timestamp ev' = now"
      by simp_all
    with ev' a' show ?thesis by (simp add: modified_on_def)
  qed
  from 1 2 3 show ?thesis by blast
qed

theorem trigger_event_effect_witness:
  "trigger_event example_resolve example_init example_apply 101 world1 SomethingHappened []
     = Inl (TypeError, world1)
   \<and> trigger_event example_resolve example_init example_apply 101 world1 SomethingHappened
       [(''what'', PStr ''rain'')] = Inr world2
   \<and> version world2 = 2 \<and> modified_on world2 = Some (PTime 101)
   \<and> last (pending_events world2) = happened 7 2"
proof -
  have n0: "new_event SomethingHappened (aggregate_id world1) (version world1 + 1) 101 [] = Inl TypeError"
    by (simp add: example_defs)
  have n1: "new_event SomethingHappened (aggregate_id world1) (version world1 + 1) 101
       [(''what'', PStr ''rain'')] = Inr (happened 7 2)"
    by (simp add: example_defs)
  have a1: "example_apply (happened 7 2) world1 =
      (Inr PNone, world1\<lparr>attrs := (attrs world1)(''what'' \<mapsto> PStr ''rain'')\<rparr>)"
    by (simp add: example_defs)
  have c: "\<not> ec_is_created SomethingHappened"
    by (simp add: example_defs)
  have w: "(world1\<lparr>attrs := (attrs world1)(''what'' \<mapsto> PStr ''rain'')\<rparr>)
      \<lparr>attrs := (attrs (world1\<lparr>attrs := (attrs world1)(''what'' \<mapsto> PStr ''rain'')\<rparr>))
                 (''_modified_on'' \<mapsto> PTime (timestamp (happened 7 2))),
        version := originator_version (happened 7 2),
        pending_events := pending_events (world1\<lparr>attrs := (attrs world1)(''what'' \<mapsto> PStr ''rain'')\<rparr>)
           @ [happened 7 2]\<rparr> = world2"
    by (simp add: world2_def world1_def happened_def)
  from trigger_event_effect [where ec = SomethingHappened and a = world1 and now = 101
      and kw = "[]" and e = TypeError and R = example_resolve and init = example_init
      and ?apply = example_apply] n0
  have r0: "trigger_event example_resolve example_init example_apply 101 world1 SomethingHappened []
     = Inl (TypeError, world1)"
    by blast
  from trigger_event_effect [where ec = SomethingHappened and a = world1 and now = 101
      and kw = "[(''what'', PStr ''rain'')]" and ev = "happened 7 2" and R = example_resolve
      and init = example_init and ?apply = example_apply
      and b = "world1\<lparr>attrs := (attrs world1)(''what'' \<mapsto> PStr ''rain'')\<rparr>"] n1 a1 c
  have "trigger_event example_resolve example_init example_apply 101 world1 SomethingHappened
       [(''what'', PStr ''rain'')] =
      Inr ((world1\<lparr>attrs := (attrs world1)(''what'' \<mapsto> PStr ''rain'')\<rparr>)
      \<lparr>attrs := (attrs (world1\<lparr>attrs := (attrs world1)(''what'' \<mapsto> PStr ''rain'')\<rparr>))
                 (''_modified_on'' \<mapsto> PTime (timestamp (happened 7 2))),
        version := originator_version (happened 7 2),
        pending_events := pending_events (world1\<lparr>attrs := (attrs world1)(''what'' \<mapsto> PStr ''rain'')\<rparr>)
           @ [happened 7 2]\<rparr>)"
    by blast
  with w have r1: "trigger_event example_resolve example_init example_apply 101 world1
      SomethingHappened [(''what'', PStr ''rain'')] = Inr world2"
    by simp
  from trigger_event_effect [where ec = SomethingHappened and a = world1 and now = 101
      and kw = "[(''what'', PStr ''rain'')]" and R = example_resolve
      and init = example_init and ?apply = example_apply and a' = world2] r1
  have "\<exists>ev'. new_event SomethingHappened (aggregate_id world1) (version world1 + 1) 101
           [(''what'', PStr ''rain'')] = Inr ev'
           \<and> version world2 = originator_version ev'
           \<and> modified_on world2 = Some (PTime (timestamp ev'))
           \<and> pending_events world2 \<noteq> [] \<and> last (pending_events world2) = ev'"
    by blast
  with n1 have "version world2 = 2 \<and> modified_on world2 = Some (PTime 101)
     \<and> last (pending_events world2) = happened 7 2"
    by (auto simp: happened_def)
  with r0 r1 show ?thesis by blast
qed






text \<open>
  Claim C8. \<open>Snapshot.mutate\<close> on a snapshot whose state records schema version
  \<open>fv\<close> (1 if it records none), for a class that \<open>resolve_topic\<close> finds: the
  result is that of the chain of upgrade steps \<open>upcast_v\<close>N\<open>_v\<close>N+1 for
  N = \<open>fv\<close>, ..., class version - 1, each looked up on the class and applied to the state
  in this order, the state that comes out being the attributes of a new instance with the
  snapshot's id and version and an empty pending queue. A snapshot at version 1 for a class at
  version 3 goes through \<open>upcast_v1_v2\<close> and then \<open>upcast_v2_v3\<close>. If the steps before
  version \<open>v\<close> succeed and the class has no step for \<open>v\<close>, the call raises
  \<open>AttributeError\<close> with the name of the missing step.
\<close>

theorem Snapshot_mutate_upcasts_in_order:
  assumes "resolve_topic (topic snap) = Some cls"
    and "(case state snap ''class_version'' of None \<Rightarrow> PInt 1 | Some v \<Rightarrow> v) = PInt fv"
  shows "Snapshot_mutate resolve_topic snap agg =
     (case apply_steps (registered_steps cls fv (class_version_of cls))
             ((state snap)(''class_version'' := None)) of
        Inl e \<Rightarrow> Inl e
      | Inr st \<Rightarrow> Inr \<lparr>agg_class = cls, aggregate_id = originator_id snap,
                       version = originator_version snap, pending_events = [], attrs = st\<rparr>)
   \<and> map fst (registered_steps cls fv (class_version_of cls)) =
       map upcast_name [fv..class_version_of cls - 1]
   \<and> (fv = 1 \<and> class_version_of cls = 3
        \<and> cls_methods cls ''upcast_v1_v2'' = Some u12 \<and> cls_methods cls ''upcast_v2_v3'' = Some u23
        \<and> u12 ((state snap)(''class_version'' := None)) = Inr s1 \<and> u23 s1 = Inr s2 \<longrightarrow>
        Snapshot_mutate resolve_topic snap agg =
          Inr \<lparr>agg_class = cls, aggregate_id = originator_id snap,
               version = originator_version snap, pending_events = [], attrs = s2\<rparr>)
   \<and> (fv \<le> v \<and> v < class_version_of cls
        \<and> apply_steps (registered_steps cls fv v) ((state snap)(''class_version'' := None)) = Inr s'
        \<and> cls_methods cls (upcast_name v) = None \<longrightarrow>
        Snapshot_mutate resolve_topic snap agg = Inl (AttributeError (upcast_name v)))"
proof -
  note m = Snapshot_mutate_steps [of resolve_topic snap cls fv agg, OF assms]
  have o: "map fst (registered_steps cls fv (class_version_of cls)) =
       map upcast_name [fv..class_version_of cls - 1]"
    by (simp add: registered_steps_def comp_def)
  have c: "Snapshot_mutate resolve_topic snap agg =
          Inr \<lparr>agg_class = cls, aggregate_id = originator_id snap,
               version = originator_version snap, pending_events = [], attrs = s2\<rparr>"
    if "fv = 1" "class_version_of cls = 3"
      "cls_methods cls ''upcast_v1_v2'' = Some u12" "cls_methods cls ''upcast_v2_v3'' = Some u23"
      "u12 ((state snap)(''class_version'' := None)) = Inr s1" "u23 s1 = Inr s2"
  proof -
    have "[1..2::int] = [1, 2]" by (simp add: upto_rec1)
    with that have "registered_steps cls fv (class_version_of cls) =
        [(''upcast_v1_v2'', Some u12), (''upcast_v2_v3'', Some u23)]"
      by (simp add: registered_steps_def upcast_name_1 upcast_name_2)
    with m that show ?thesis by simp
  qed
  have x: "Snapshot_mutate resolve_topic snap agg = Inl (AttributeError (upcast_name v))"
    if "fv \<le> v" "v < class_version_of cls"
      "apply_steps (registered_steps cls fv v) ((state snap)(''class_version'' := None)) = Inr s'"
      "cls_methods cls (upcast_name v) = None"
    using m that registered_steps_split [OF that(1,2), of cls]
    by (simp add: apply_steps_append)
  from m o c x show ?thesis by blast
qed

theorem Snapshot_mutate_upcasts_in_order_witness:
  "Snapshot_mutate resolve3 (snapshot_v1 ''World3'') None =
     Inr \<lparr>agg_class = World3, aggregate_id = 7, version = 4, pending_events = [],
          attrs = [''name'' \<mapsto> PStr ''Earth'', ''size'' \<mapsto> PInt 1, ''radius'' \<mapsto> PInt 1]\<rparr>
   \<and> Snapshot_mutate resolve3 (snapshot_v1 ''World3_incomplete'') None =
       Inl (AttributeError ''upcast_v2_v3'')"
proof -
  let ?s0 = "(state (snapshot_v1 ''World3''))(''class_version'' := None)"
  have s0: "?s0 = [''name'' \<mapsto> PStr ''Earth'']"
    "(state (snapshot_v1 ''World3_incomplete''))(''class_version'' := None) = [''name'' \<mapsto> PStr ''Earth'']"
    by (auto simp: snapshot_v1_def)
  have r: "resolve3 (topic (snapshot_v1 ''World3'')) = Some World3"
    "resolve3 (topic (snapshot_v1 ''World3_incomplete'')) = Some World3_incomplete"
    by (simp_all add: resolve3_def snapshot_v1_def)
  have f: "(case state (snapshot_v1 t) ''class_version'' of None \<Rightarrow> PInt 1 | Some v \<Rightarrow> v) = PInt 1"
    for t by (simp add: snapshot_v1_def)
  have cv: "class_version_of World3 = 3" "class_version_of World3_incomplete = 3"
    by (simp_all add: class_version_of_def World3_def World3_incomplete_def World_def)
  have m: "cls_methods World3 ''upcast_v1_v2'' = Some upcast_v1_v2"
    "cls_methods World3 ''upcast_v2_v3'' = Some upcast_v2_v3"
    "cls_methods World3_incomplete ''upcast_v1_v2'' = Some upcast_v1_v2"
    "cls_methods World3_incomplete (upcast_name 2) = None"
    by (simp_all add: World3_def World3_incomplete_def World_def upcast_name_2)
  have u: "upcast_v1_v2 [''name'' \<mapsto> PStr ''Earth''] =
            Inr [''name'' \<mapsto> PStr ''Earth'', ''size'' \<mapsto> PInt 1]"
    "upcast_v2_v3 [''name'' \<mapsto> PStr ''Earth'', ''size'' \<mapsto> PInt 1] =
       Inr [''name'' \<mapsto> PStr ''Earth'', ''size'' \<mapsto> PInt 1, ''radius'' \<mapsto> PInt 1]"
    by (simp_all add: upcast_v1_v2_def upcast_v2_v3_def)
  have p: "apply_steps (registered_steps World3_incomplete 1 2) [''name'' \<mapsto> PStr ''Earth''] =
      Inr [''name'' \<mapsto> PStr ''Earth'', ''size'' \<mapsto> PInt 1]"
    using m(3) u(1) by (simp add: registered_steps_def upto_rec1 upcast_name_1)
  have u1: "upcast_v1_v2 ?s0 = Inr [''name'' \<mapsto> PStr ''Earth'', ''size'' \<mapsto> PInt 1]"
    using u(1) s0(1) by simp
  have p': "apply_steps (registered_steps World3_incomplete 1 2)
      ((state (snapshot_v1 ''World3_incomplete''))(''class_version'' := None)) =
      Inr [''name'' \<mapsto> PStr ''Earth'', ''size'' \<mapsto> PInt 1]"
    using p s0(2) by simp
  have "Snapshot_mutate resolve3 (snapshot_v1 ''World3'') None =
     Inr \<lparr>agg_class = World3, aggregate_id = originator_id (snapshot_v1 ''World3''),
          version = originator_version (snapshot_v1 ''World3''), pending_events = [],
          attrs = [''name'' \<mapsto> PStr ''Earth'', ''size'' \<mapsto> PInt 1, ''radius'' \<mapsto> PInt 1]\<rparr>"
    using Snapshot_mutate_upcasts_in_order [where resolve_topic = resolve3 and snap = "snapshot_v1 ''World3''" and cls = World3
        and fv = 1 and agg = None and ?u12.0 = upcast_v1_v2 and ?u23.0 = upcast_v2_v3
        and ?s1.0 = "[''name'' \<mapsto> PStr ''Earth'', ''size'' \<mapsto> PInt 1]"
        and ?s2.0 = "[''name'' \<mapsto> PStr ''Earth'', ''size'' \<mapsto> PInt 1, ''radius'' \<mapsto> PInt 1]",
        OF r(1) f]
      cv(1) m(1,2) u1 u(2)
    by blast
  then have 1: "Snapshot_mutate resolve3 (snapshot_v1 ''World3'') None =
     Inr \<lparr>agg_class = World3, aggregate_id = 7, version = 4, pending_events = [],
          attrs = [''name'' \<mapsto> PStr ''Earth'', ''size'' \<mapsto> PInt 1, ''radius'' \<mapsto> PInt 1]\<rparr>"
    by (simp add: snapshot_v1_def)
  have le: "(1::int) \<le> 2" "2 < class_version_of World3_incomplete"
    by (simp_all add: cv)
  have "Snapshot_mutate resolve3 (snapshot_v1 ''World3_incomplete'') None =
       Inl (AttributeError (upcast_name 2))"
    using Snapshot_mutate_upcasts_in_order [where resolve_topic = resolve3 and snap = "snapshot_v1 ''World3_incomplete''"
        and cls = World3_incomplete and fv = 1 and agg = None and v = 2
        and s' = "[''name'' \<mapsto> PStr ''Earth'', ''size'' \<mapsto> PInt 1]", OF r(2) f]
      le m(4) p'
    by blast
  then have 2: "Snapshot_mutate resolve3 (snapshot_v1 ''World3_incomplete'') None =
       Inl (AttributeError ''upcast_v2_v3'')"
    by (simp add: upcast_name_2)
  from 1 2 show ?thesis by simp
qed

text \<open>
  Claim C7, as stated, holds for every aggregate. \<open>Snapshot.take\<close> keeps the schema
  version in the state under the key \<open>class_version\<close> and \<open>Snapshot.mutate\<close> pops that
  key, so an instance attribute of this name does not come back: the aggregate restored
  from the snapshot of \<open>world_cv\<close> is \<open>world1\<close>, which has no such attribute.
\<close>

theorem snapshot_round_trip_counterexample:
  "Snapshot_mutate example_resolve (Snapshot_take 200 world_cv) None = Inr world1
   \<and> attrs world1 ''class_version'' = None
   \<and> attrs world_cv ''class_version'' = Some (PInt 5)"
proof -
  have "upcast_loop World 5 1 s = Inr s" for s
    by (simp add: upcast_loop.simps [of World 5 1 s])
  then show ?thesis
    by (simp add: Snapshot_mutate_def Snapshot_take_def world_cv_def world1_def example_resolve_def
        class_version_of_def World_def Let_def)
qed

text \<open>
  Claim C7, amended. For an aggregate that has no instance attribute called
  \<open>class_version\<close>, and whose class \<open>resolve_topic\<close> finds under the class's topic,
  \<open>Snapshot.take\<close> followed by \<open>Snapshot.mutate\<close> gives the aggregate with the same
  class, id, version and attributes and an empty pending queue.
\<close>

theorem snapshot_round_trip:
  assumes "resolve_topic (cls_topic (agg_class a)) = Some (agg_class a)"
    and "attrs a ''class_version'' = None"
  shows "Snapshot_mutate resolve_topic (Snapshot_take now a) x = Inr (a\<lparr>pending_events := []\<rparr>)"
proof -
  let ?cv = "class_version_of (agg_class a)"
  have st: "(state (Snapshot_take now a))(''class_version'' := None) = attrs a"
    using assms(2) by (auto simp: Snapshot_take_def Let_def)
  have l: "upcast_loop (agg_class a) ?cv ?cv s = Inr s" for s
    by (simp add: upcast_loop.simps [of "agg_class a" ?cv ?cv s])
  have l1: "upcast_loop (agg_class a) 1 ?cv s = Inr s" if "\<not> 1 < ?cv" for s
    using that by (simp add: upcast_loop.simps [of "agg_class a" 1 ?cv s])
  have r: "\<lparr>agg_class = agg_class a, aggregate_id = aggregate_id a, version = version a,
            pending_events = [], attrs = attrs a\<rparr> = a\<lparr>pending_events := []\<rparr>"
    by (cases a) simp
  show ?thesis
  proof (cases "1 < ?cv")
    case True
    then have "state (Snapshot_take now a) ''class_version'' = Some (PInt ?cv)"
      by (simp add: Snapshot_take_def Let_def)
    with assms(1) st l r show ?thesis
      by (simp add: Snapshot_mutate_def Let_def) (simp add: Snapshot_take_def Let_def)
  next
    case False
    then have "state (Snapshot_take now a) ''class_version'' = None"
      using assms(2) by (simp add: Snapshot_take_def Let_def)
    with assms(1) st l1 [OF False] r show ?thesis
      by (simp add: Snapshot_mutate_def Let_def) (simp add: Snapshot_take_def Let_def)
  qed
qed

theorem snapshot_round_trip_witness:
  "Snapshot_mutate resolve3 (Snapshot_take 200 world2) None =
     Inr (world2\<lparr>pending_events := []\<rparr>)
   \<and> Snapshot_mutate resolve3 (Snapshot_take 200 (world2\<lparr>agg_class := World3\<rparr>)) None =
     Inr (world2\<lparr>agg_class := World3, pending_events := []\<rparr>)
   \<and> state (Snapshot_take 200 (world2\<lparr>agg_class := World3\<rparr>)) ''class_version'' = Some (PInt 3)"
proof -
  have r: "resolve3 (cls_topic (agg_class world2)) = Some (agg_class world2)"
    "resolve3 (cls_topic (agg_class (world2\<lparr>agg_class := World3\<rparr>))) =
       Some (agg_class (world2\<lparr>agg_class := World3\<rparr>))"
    by (simp_all add: resolve3_def world2_def world1_def World_def World3_def)
  have n: "attrs world2 ''class_version'' = None"
    "attrs (world2\<lparr>agg_class := World3\<rparr>) ''class_version'' = None"
    by (simp_all add: world2_def world1_def)
  have s: "state (Snapshot_take 200 (world2\<lparr>agg_class := World3\<rparr>)) ''class_version'' = Some (PInt 3)"
    by (simp add: Snapshot_take_def class_version_of_def World3_def World_def Let_def)
  from snapshot_round_trip [where resolve_topic = resolve3 and a = world2 and now = 200 and x = None, OF r(1) n(1)]
    snapshot_round_trip [where resolve_topic = resolve3 and a = "world2\<lparr>agg_class := World3\<rparr>" and now = 200
      and x = None, OF r(2) n(2)] s
  show ?thesis by simp
qed

text \<open>
  Claim C4. On the empty recorder \<open>max_notification_id\<close> is 0 and
  \<open>select_notifications\<close> returns the empty list. After a run of inserts that all
  succeed, with K events in all, \<open>max_notification_id\<close> is K and
  \<open>select_notifications(1, K)\<close> returns the K events inserted, in order, with the
  ids 1, ..., K. The ids one insert call returns go with the events in the order of its
  batch and rise by one from the highest id assigned before.
\<close>

theorem notification_ids_dense:
  "max_notification_id empty_recorder = 0
   \<and> select_notifications empty_recorder start limit stop topics = []
   \<and> (insert_all empty_recorder batches = Inr r \<longrightarrow>
        max_notification_id r = int (length (concat batches))
        \<and> map notification_id
            (select_notifications r 1 (int (length (concat batches))) None None) =
            [1..int (length (concat batches))]
        \<and> map stored_of
            (select_notifications r 1 (int (length (concat batches))) None None) =
            concat batches)
   \<and> (insert_events r0 batch = Inr (returning, r1) \<longrightarrow>
        map fst returning = batch
        \<and> map snd returning =
            [max_notification_id r0 + 1..max_notification_id r0 + int (length batch)]
        \<and> sorted_wrt (<) (map snd returning))"
proof -
  have 1: "max_notification_id empty_recorder = 0"
    by (simp add: max_notification_id_def empty_recorder_def)
  have 2: "select_notifications empty_recorder start limit stop topics = []"
    by (simp add: select_notifications_def empty_recorder_def)
  have 3: "max_notification_id r = int (length (concat batches))
        \<and> map notification_id
            (select_notifications r 1 (int (length (concat batches))) None None) =
            [1..int (length (concat batches))]
        \<and> map stored_of
            (select_notifications r 1 (int (length (concat batches))) None None) =
            concat batches"
    if "insert_all empty_recorder batches = Inr r"
  proof -
    from insert_all_dense [OF empty_dense that]
    have d: "map notification_id r = [1..int (length r)]"
      and s: "map stored_of r = concat batches"
      by (simp_all add: empty_recorder_def)
    from s have l: "length (concat batches) = length r"
      by (metis length_map)
    have "set (map notification_id r) = {1..int (length r)}"
      by (simp add: d)
    then have "\<forall>n \<in> set r. 1 \<le> notification_id n"
      by (metis atLeastAtMost_iff image_eqI set_map)
    then have "filter (\<lambda>n. 1 \<le> notification_id n) r = r"
      by simp
    then have "select_notifications r 1 (int (length r)) None None = r"
      by (simp add: select_notifications_dense(1) [OF d])
    with d s l max_notification_id_dense [OF d] show ?thesis by simp
  qed
  have 4: "map fst returning = batch
        \<and> map snd returning =
            [max_notification_id r0 + 1..max_notification_id r0 + int (length batch)]
        \<and> sorted_wrt (<) (map snd returning)"
    if "insert_events r0 batch = Inr (returning, r1)"
    using insert_events_Inr(2,3) [OF that] by simp
  from 1 2 3 4 show ?thesis by blast
qed

theorem notification_ids_dense_witness:
  "insert_all empty_recorder test_batches = Inr test_recorder
   \<and> max_notification_id test_recorder = 3
   \<and> map notification_id (select_notifications test_recorder 1 3 None None) = [1, 2, 3]
   \<and> insert_events empty_recorder [stored_event1, stored_event2] =
       Inr ([(stored_event1, 1), (stored_event2, 2)],
            [notification_of stored_event1 1, notification_of stored_event2 2])"
proof -
  have l: "int (length (concat test_batches)) = 3" by (simp add: test_batches_def)
  have u: "[1..3::int] = [1, 2, 3]" by (simp add: upto_rec1)
  have i: "insert_events empty_recorder [stored_event1, stored_event2] =
       Inr ([(stored_event1, 1), (stored_event2, 2)],
            [notification_of stored_event1 1, notification_of stored_event2 2])"
    by code_simp
  from notification_ids_dense [where batches = test_batches and r = test_recorder and ?r0.0 = empty_recorder
      and batch = "[stored_event1, stored_event2]"
      and returning = "[(stored_event1, 1), (stored_event2, 2)]"
      and ?r1.0 = "[notification_of stored_event1 1, notification_of stored_event2 2]"]
    insert_all_test i
  have "max_notification_id test_recorder = int (length (concat test_batches))
     \<and> map notification_id
            (select_notifications test_recorder 1 (int (length (concat test_batches))) None None) =
            [1..int (length (concat test_batches))]"
    by blast
  with l u insert_all_test i show ?thesis by simp
qed

text \<open>
  Claim C5. On the store left by any run of insert calls, \<open>select_notifications\<close> with
  a list of topics returns the first \<open>limit\<close> of the committed rows whose id is at least
  \<open>start\<close> and whose topic is in the list: rows of the store as they are, each with the
  id it was given, in strictly ascending order of id. After the inserts of
  \<open>test_insert_select\<close>, the call with start 1, limit 3 and topics \<open>topic1\<close>,
  \<open>topic3\<close> returns the rows with ids 1 and 3.
\<close>

theorem topic_filter_keeps_ids:
  "(let r = after_inserts empty_recorder batches;
        res = select_notifications r start limit None (Some S)
    in res = take (nat limit)
               (filter (\<lambda>n. start \<le> notification_id n \<and> stored_topic n \<in> set S) r)
       \<and> set res \<subseteq> set r
       \<and> (\<forall>n \<in> set res. stored_topic n \<in> set S \<and> start \<le> notification_id n)
       \<and> length res \<le> nat limit
       \<and> sorted_wrt (<) (map notification_id res))
   \<and> map notification_id
        (select_notifications
           (after_inserts empty_recorder [[stored_event1, stored_event2], [stored_event3]])
           1 3 None (Some [''topic1'', ''topic3''])) = [1, 3]"
proof -
  define r where "r = after_inserts empty_recorder batches"
  define res where "res = select_notifications r start limit None (Some S)"
  have d: "map notification_id r = [1..int (length r)]"
    unfolding r_def by (rule after_inserts_dense [OF empty_dense])
  have e: "res = take (nat limit)
               (filter (\<lambda>n. start \<le> notification_id n \<and> stored_topic n \<in> set S) r)"
    unfolding res_def by (simp add: select_notifications_dense(1) [OF d])
  have s: "sorted_wrt (<) (map notification_id res)"
    unfolding res_def by (rule select_notifications_dense(2) [OF d])
  have sub: "set res \<subseteq> set (filter (\<lambda>n. start \<le> notification_id n \<and> stored_topic n \<in> set S) r)"
    unfolding e by (rule set_take_subset)
  then have m: "set res \<subseteq> set r" "\<forall>n \<in> set res. stored_topic n \<in> set S \<and> start \<le> notification_id n"
    by auto
  have l: "length res \<le> nat limit" unfolding e by simp
  have "after_inserts empty_recorder [[stored_event1, stored_event2], [stored_event3]] =
      test_recorder"
    by code_simp
  then have t: "map notification_id
        (select_notifications
           (after_inserts empty_recorder [[stored_event1, stored_event2], [stored_event3]])
           1 3 None (Some [''topic1'', ''topic3''])) = [1, 3]"
    by (simp add: select_notifications_test)
  have "res = take (nat limit)
               (filter (\<lambda>n. start \<le> notification_id n \<and> stored_topic n \<in> set S) r)
       \<and> set res \<subseteq> set r
       \<and> (\<forall>n \<in> set res. stored_topic n \<in> set S \<and> start \<le> notification_id n)
       \<and> length res \<le> nat limit
       \<and> sorted_wrt (<) (map notification_id res)"
    using e m l s by blast
  then have "let r = after_inserts empty_recorder batches;
        res = select_notifications r start limit None (Some S)
    in res = take (nat limit)
               (filter (\<lambda>n. start \<le> notification_id n \<and> stored_topic n \<in> set S) r)
       \<and> set res \<subseteq> set r
       \<and> (\<forall>n \<in> set res. stored_topic n \<in> set S \<and> start \<le> notification_id n)
       \<and> length res \<le> nat limit
       \<and> sorted_wrt (<) (map notification_id res)"
    unfolding Let_def res_def r_def .
  from this t show ?thesis by (rule conjI)
qed

theorem topic_filter_keeps_ids_witness:
  "select_notifications (after_inserts empty_recorder test_batches) 1 3 None
       (Some [''topic1'', ''topic3'']) =
     [notification_of stored_event1 1, notification_of stored_event3 3]
   \<and> select_notifications (after_inserts empty_recorder test_batches) 2 1 None
       (Some [''topic2'', ''topic3'']) = [notification_of stored_event2 2]"
proof -
  have "select_notifications test_recorder 1 3 None (Some [''topic1'', ''topic3'']) =
      take (nat 3) (filter (\<lambda>n. 1 \<le> notification_id n
         \<and> stored_topic n \<in> set [''topic1'', ''topic3'']) test_recorder)"
    using topic_filter_keeps_ids [of test_batches 1 3 "[''topic1'', ''topic3'']"]
    unfolding Let_def after_inserts_test by blast
  moreover have "select_notifications test_recorder 2 1 None (Some [''topic2'', ''topic3'']) =
      take (nat 1) (filter (\<lambda>n. 2 \<le> notification_id n
         \<and> stored_topic n \<in> set [''topic2'', ''topic3'']) test_recorder)"
    using topic_filter_keeps_ids [of test_batches 2 1 "[''topic2'', ''topic3'']"]
    unfolding Let_def after_inserts_test by blast
  ultimately show ?thesis
    unfolding after_inserts_test
    by (simp add: test_recorder_def notification_of_def stored_event1_def stored_event2_def
        stored_event3_def)
qed

text \<open>
  Claim C6, as stated, has the versions of every originator start at 1. The first insert of
  \<open>test_insert_select\<close> commits versions 0 and 1 for one originator and the test expects
  it to succeed with the ids 1 and 2: the committed versions of that originator are 0, 1.
\<close>

theorem versions_start_at_1_counterexample:
  "insert_events empty_recorder [stored_event1, stored_event2] =
     Inr ([(stored_event1, 1), (stored_event2, 2)],
          [notification_of stored_event1 1, notification_of stored_event2 2])
   \<and> committed_versions [notification_of stored_event1 1, notification_of stored_event2 2] 1
       = [0, 1]"
  by code_simp

text \<open>
  Claim C6, amended. On the store left by any run of insert calls, the versions committed
  for one originator, in commit order, go up by one at every step from the version of the
  originator's first event, so they have no gap and no duplicate. An insert is rejected with
  the conflict error, and leaves the store as it was, when an event of the batch has a pair
  (originator_id, originator_version) that is already committed, when two events of the
  batch have the same pair, and when the originator of an event has a history (committed,
  or earlier in the batch) and the event's version is not the one after the last. A call
  that fails returns the conflict error and the store unchanged; a call that succeeds
  commits the whole batch.
\<close>

theorem committed_versions_contiguous:
  "(let vs = committed_versions (after_inserts empty_recorder batches) oid
    in contiguous vs \<and> distinct vs
       \<and> (vs \<noteq> [] \<longrightarrow> vs = [hd vs..hd vs + int (length vs) - 1]))
   \<and> (e \<in> set batch \<and> key e \<in> set (map key r) \<longrightarrow>
        insert_events r batch = Inl (Conflict, r))
   \<and> (\<not> distinct (map key batch) \<longrightarrow> insert_events r batch = Inl (Conflict, r))
   \<and> ((let vs = map snd (filter (\<lambda>h. fst h = stored_originator_id e)
                          (map key r @ map key xs))
        in vs \<noteq> [] \<and> stored_originator_version e \<noteq> last vs + 1) \<longrightarrow>
        insert_events r (xs @ e # ys) = Inl (Conflict, r))
   \<and> (insert_events r batch = Inl x \<longrightarrow> x = (Conflict, r))
   \<and> (insert_events r batch = Inr (returning, r') \<longrightarrow>
        map stored_of r' = map stored_of r @ batch)"
proof -
  have "\<forall>oid. contiguous (committed_versions empty_recorder oid)"
    by (simp add: committed_versions_def empty_recorder_def)
  from after_inserts_contiguous [OF this]
  have c: "contiguous (committed_versions (after_inserts empty_recorder batches) oid)"
    by blast
  have 1: "let vs = committed_versions (after_inserts empty_recorder batches) oid
    in contiguous vs \<and> distinct vs
       \<and> (vs \<noteq> [] \<longrightarrow> vs = [hd vs..hd vs + int (length vs) - 1])"
    unfolding Let_def using c contiguous_distinct [OF c] contiguous_upto [OF c] by blast
  have 2: "insert_events r batch = Inl (Conflict, r)"
    if "e \<in> set batch" "key e \<in> set (map key r)"
  proof -
    from that(1) have "key e \<in> key ` set batch" by simp
    from batch_conflict_member [OF that(2) this] show ?thesis
      by (simp add: insert_events_def)
  qed
  have 3: "insert_events r batch = Inl (Conflict, r)" if "\<not> distinct (map key batch)"
    using batch_conflict_duplicate [OF that, of "map key r"] by (simp add: insert_events_def)
  have 4: "insert_events r (xs @ e # ys) = Inl (Conflict, r)"
    if "let vs = map snd (filter (\<lambda>h. fst h = stored_originator_id e)
                          (map key r @ map key xs))
        in vs \<noteq> [] \<and> stored_originator_version e \<noteq> last vs + 1"
  proof -
    from that have "conflicts (map key r @ map key xs) (key e)"
      by (simp add: conflicts_def key_def Let_def)
    then show ?thesis by (rule insert_events_conflict)
  qed
  have 5: "x = (Conflict, r)" if "insert_events r batch = Inl x"
    using that by (rule insert_events_Inl)
  have 6: "map stored_of r' = map stored_of r @ batch"
    if "insert_events r batch = Inr (returning, r')"
    using that by (rule insert_events_Inr(5))
  from 1 2 3 4 5 6 show ?thesis by blast
qed

theorem committed_versions_contiguous_witness:
  "contiguous (committed_versions (after_inserts empty_recorder test_batches) 1)
   \<and> distinct (committed_versions (after_inserts empty_recorder test_batches) 1)
   \<and> committed_versions (after_inserts empty_recorder test_batches) 1 = [0, 1]
   \<and> insert_events test_recorder [stored_event2] = Inl (Conflict, test_recorder)
   \<and> insert_events empty_recorder [stored_event3, stored_event3] = Inl (Conflict, empty_recorder)
   \<and> insert_events test_recorder [stored_event2\<lparr>stored_originator_version := 5\<rparr>] =
       Inl (Conflict, test_recorder)"
proof -
  have cv: "committed_versions test_recorder 1 = [0, 1]"
    by code_simp
  have 1: "contiguous (committed_versions (after_inserts empty_recorder test_batches) 1)
      \<and> distinct (committed_versions (after_inserts empty_recorder test_batches) 1)"
    using committed_versions_contiguous [where batches = test_batches and oid = 1] unfolding Let_def by blast
  have m: "stored_event2 \<in> set [stored_event2]" "key stored_event2 \<in> set (map key test_recorder)"
    by (simp_all add: test_recorder_def key_def notification_of_def)
  have 2: "insert_events test_recorder [stored_event2] = Inl (Conflict, test_recorder)"
    using committed_versions_contiguous [where e = stored_event2 and batch = "[stored_event2]" and r = test_recorder] m
    by blast
  have d: "\<not> distinct (map key [stored_event3, stored_event3])"
    by simp
  have 3: "insert_events empty_recorder [stored_event3, stored_event3] =
      Inl (Conflict, empty_recorder)"
    using committed_versions_contiguous [where batch = "[stored_event3, stored_event3]" and r = empty_recorder] d
    by blast
  let ?g = "stored_event2\<lparr>stored_originator_version := 5\<rparr>"
  have "map snd (filter (\<lambda>h. fst h = stored_originator_id ?g) (map key test_recorder @ map key []))
      = [0, 1]"
    by (simp add: test_recorder_def key_def notification_of_def stored_event1_def
        stored_event2_def stored_event3_def)
  then have g: "let vs = map snd (filter (\<lambda>h. fst h = stored_originator_id ?g)
                          (map key test_recorder @ map key []))
        in vs \<noteq> [] \<and> stored_originator_version ?g \<noteq> last vs + 1"
    by (simp add: Let_def)
  have 4: "insert_events test_recorder ([] @ ?g # []) = Inl (Conflict, test_recorder)"
    using committed_versions_contiguous [where e = ?g and xs = "[]" and ys = "[]" and r = test_recorder] g
    by blast
  from 1 2 3 4 cv show ?thesis by (simp add: after_inserts_test)
qed

end
